theory Spec2Isabelle
  imports Complex_Main
begin

section \<open>Data model\<close>

text \<open>
  The script \<open>scripts/split_pitches.py\<close> reads a CSV table and writes one CSV table per
  pitch. The \<open>csv\<close> module turns a file into a sequence of rows, every row a list of
  string fields, and back; the model starts from that sequence. A blank line of the input is
  the row with no field.

  A \<open>pathlib.Path\<close> is the list of its parts (\<open>Path.parts\<close>).
\<close>

type_synonym row = "string list"
type_synonym table = "row list"
type_synonym path = "string list"

subsection \<open>The file system and the standard output\<close>

text \<open>
  The files are kept as a journal of the tables written, the newest first: opening a path
  with mode \<open>w\<close> replaces what the path held, so the content of a path is the newest entry
  under its name, and the journal also tells which writes a run has performed. Operating
  system failures other than a missing input (permissions, a full disk, a file where a
  directory is expected) are outside the model: creating a directory and writing a file
  succeed.
\<close>

record world =
  journal :: "(path \<times> table) list"
  dirs :: "path set"
  stdout :: "string list"

definition file_content :: "world \<Rightarrow> path \<Rightarrow> table option" where
  "file_content w p = map_of (journal w) p"

definition exists_path :: "world \<Rightarrow> path \<Rightarrow> bool" where
  "exists_path w p = (file_content w p \<noteq> None \<or> p \<in> dirs w)"

definition print_line :: "string \<Rightarrow> world \<Rightarrow> world" where
  "print_line s w = w\<lparr>stdout := stdout w @ [s]\<rparr>"

text \<open>\<open>Path.mkdir(parents=True, exist_ok=True)\<close>: the directory and every missing parent.\<close>

definition mkdir_parents :: "path \<Rightarrow> world \<Rightarrow> world" where
  "mkdir_parents p w = w\<lparr>dirs := dirs w \<union> set (map (\<lambda>n. take n p) [1..<Suc (length p)])\<rparr>"

text \<open>The writes a run has added to the journal, the newest first.\<close>

definition new_writes :: "world \<Rightarrow> world \<Rightarrow> (path \<times> table) list" where
  "new_writes w w' = take (length (journal w') - length (journal w)) (journal w')"

text \<open>The data rows (all rows but the header) of a list of writes, in the order written.\<close>

definition written_rows :: "(path \<times> table) list \<Rightarrow> row list" where
  "written_rows ws = concat (map (\<lambda>e. tl (snd e)) (rev ws))"

subsection \<open>Paths and formatting\<close>

fun join_parts :: "string list \<Rightarrow> string" where
  "join_parts [] = []"
| "join_parts [p] = p"
| "join_parts (p # q # ps) = p @ ''/'' @ join_parts (q # ps)"

text \<open>
  \<open>str(path)\<close>: the parts joined by a slash. A root part, one slash or two, is written as
  it is, with no slash added after it; the path with no part is the dot.
\<close>

definition is_root :: "string \<Rightarrow> bool" where
  "is_root x = (x = ''/'' \<or> x = ''//'')"

definition path_str :: "path \<Rightarrow> string" where
  "path_str p =
     (case p of [] \<Rightarrow> ''.''
      | x # xs \<Rightarrow> if is_root x then x @ join_parts xs else join_parts p)"

text \<open>\<open>Path.name\<close>: the last part, and the empty string for a root alone.\<close>

definition path_name :: "path \<Rightarrow> string" where
  "path_name p = (if p = [] \<or> (length p = 1 \<and> is_root (hd p)) then [] else last p)"

text \<open>
  \<open>Path.stem\<close>: the final part without its last suffix; a dot that is the first or the last
  character of the name starts no suffix.
\<close>

definition stem :: "path \<Rightarrow> string" where
  "stem p =
     (let name = path_name p;
          ext = takeWhile (\<lambda>c. c \<noteq> CHR ''.'') (rev name);
          i = length name - length ext - 1
      in if CHR ''.'' \<in> set name \<and> 0 < i \<and> ext \<noteq> [] then take i name else name)"

definition digit_char :: "nat \<Rightarrow> char" where
  "digit_char d = char_of (48 + d)"

fun dec :: "nat \<Rightarrow> string" where
  "dec n = (if n < 10 then [digit_char n] else dec (n div 10) @ [digit_char (n mod 10)])"

declare dec.simps [simp del]

text \<open>The format \<open>{idx:03d}\<close>: decimal, padded with zeros on the left to three characters.\<close>

definition fmt_03d :: "nat \<Rightarrow> string" where
  "fmt_03d n = replicate (3 - length (dec n)) CHR ''0'' @ dec n"

subsection \<open>Floating-point values and their parser\<close>

text \<open>
  The program reads the first field with \<open>float\<close> and compares the result with \<open>0.0\<close>.
  A float is a finite number, a negative zero, an infinity or a NaN; \<open>==\<close> makes the two
  zeros equal and a NaN equal to nothing. The parser \<open>float\<close> belongs to the language, not to
  this repository: every function below takes it as the parameter \<open>pf\<close>, which returns
  \<open>None\<close> where \<open>float\<close> raises.
\<close>

datatype pyfloat = Finite rat | NegZero | PosInf | NegInf | NaN

fun float_eq :: "pyfloat \<Rightarrow> pyfloat \<Rightarrow> bool" where
  "float_eq NaN _ = False"
| "float_eq _ NaN = False"
| "float_eq NegZero y = (y = NegZero \<or> y = Finite 0)"
| "float_eq x NegZero = (x = Finite 0)"
| "float_eq x y = (x = y)"

text \<open>\<open>str.strip()\<close>: the whitespace characters among the code points below 256.\<close>

definition is_space :: "char \<Rightarrow> bool" where
  "is_space c =
     (let n = (of_char c :: nat)
      in (9 \<le> n \<and> n \<le> 13) \<or> (28 \<le> n \<and> n \<le> 32) \<or> n = 133 \<or> n = 160)"

definition strip :: "string \<Rightarrow> string" where
  "strip s = rev (dropWhile is_space (rev (dropWhile is_space s)))"

section \<open>The program\<close>

datatype error = FileNotFoundError path | IsADirectoryError path | SystemExit string

definition write_pitch ::
  "path \<Rightarrow> string \<Rightarrow> nat \<Rightarrow> row \<Rightarrow> row list \<Rightarrow> world \<Rightarrow> path \<times> world" where
  "write_pitch outdir base idx header rows w =
     (let w1 = mkdir_parents outdir w;
          filename = base @ ''_pitch_'' @ fmt_03d idx @ ''.csv'';
          outpath = outdir @ [filename]
      in (outpath, w1\<lparr>journal := (outpath, header # rows) # journal w1\<rparr>))"

text \<open>The local variables of \<open>split_file\<close> that its loop updates, and the world.\<close>

record scan =
  pitch_idx :: nat
  current_rows :: "row list"
  env :: world

text \<open>The comparison \<open>t == 0.0\<close>, where \<open>t\<close> is \<open>None\<close> after a failed parse.\<close>

definition is_zero :: "pyfloat option \<Rightarrow> bool" where
  "is_zero t = (case t of None \<Rightarrow> False | Some x \<Rightarrow> float_eq x (Finite 0))"

definition wrote_line :: "path \<Rightarrow> row list \<Rightarrow> string" where
  "wrote_line p rows = ''Wrote '' @ path_str p @ '' ('' @ dec (length rows) @ '' rows)''"

text \<open>The body of the loop \<open>for row in reader\<close>.\<close>

definition loop_body ::
  "(string \<Rightarrow> pyfloat option) \<Rightarrow> path \<Rightarrow> string \<Rightarrow> row \<Rightarrow> row \<Rightarrow> scan \<Rightarrow> scan" where
  "loop_body pf outdir base header row s =
     (if row = [] then s
      else
        let t_str = strip (row ! 0);
            t = pf t_str
        in if is_zero t then
             let s1 =
               (if current_rows s \<noteq> [] then
                  let idx = pitch_idx s + 1;
                      (p, w) = write_pitch outdir base idx header (current_rows s) (env s)
                  in \<lparr>pitch_idx = idx, current_rows = [],
                      env = print_line (wrote_line p (current_rows s)) w\<rparr>
                else s)
             in s1\<lparr>current_rows := current_rows s1 @ [row]\<rparr>
           else
             let s1 = (if current_rows s = [] then s\<lparr>pitch_idx := pitch_idx s + 1\<rparr> else s)
             in s1\<lparr>current_rows := current_rows s1 @ [row]\<rparr>)"

definition scan_rows ::
  "(string \<Rightarrow> pyfloat option) \<Rightarrow> path \<Rightarrow> string \<Rightarrow> row \<Rightarrow> row list \<Rightarrow> scan \<Rightarrow> scan" where
  "scan_rows pf outdir base header rows s = fold (loop_body pf outdir base header) rows s"

text \<open>The state in which \<open>split_file\<close> enters its loop: no pitch counted, an empty buffer.\<close>

definition init_scan :: "world \<Rightarrow> scan" where
  "init_scan w = \<lparr>pitch_idx = 0, current_rows = [], env = w\<rparr>"

text \<open>The index of the write after the loop: \<open>pitch_idx if pitch_idx>0 else 1\<close>.\<close>

definition final_idx :: "scan \<Rightarrow> nat" where
  "final_idx s = (if pitch_idx s > 0 then pitch_idx s else 1)"

definition split_file ::
  "(string \<Rightarrow> pyfloat option) \<Rightarrow> path \<Rightarrow> path \<Rightarrow> world \<Rightarrow> error option \<times> world" where
  "split_file pf input_path outdir w =
     (let base = stem input_path
      in case file_content w input_path of
           None \<Rightarrow>
             (Some (if input_path \<in> dirs w then IsADirectoryError input_path
                    else FileNotFoundError input_path), w)
         | Some [] \<Rightarrow> (None, print_line ''Input file is empty'' w)
         | Some (header # rest) \<Rightarrow>
             let s = scan_rows pf outdir base header rest (init_scan w)
             in if current_rows s \<noteq> [] then
                  let (p, w1) = write_pitch outdir base (final_idx s) header (current_rows s) (env s)
                  in (None, print_line (wrote_line p (current_rows s)) w1)
                else (None, env s))"

text \<open>
  \<open>main\<close>, after \<open>argparse\<close> has produced the two paths. \<open>raise SystemExit(msg)\<close> prints the
  message on the standard error and ends the process with status 1, as an uncaught exception
  does.
\<close>

definition main :: "(string \<Rightarrow> pyfloat option) \<Rightarrow> path \<Rightarrow> path \<Rightarrow> world \<Rightarrow> error option \<times> world" where
  "main pf input_path outdir w =
     (if \<not> exists_path w input_path
      then (Some (SystemExit (''Input file not found: '' @ path_str input_path)), w)
      else split_file pf input_path outdir w)"

definition exit_status :: "error option \<Rightarrow> nat" where
  "exit_status r = (case r of None \<Rightarrow> 0 | Some e \<Rightarrow> 1)"

section \<open>A parser and inputs for the examples\<close>

text \<open>
  The theorems below hold for every parser \<open>pf\<close>. The examples need one: \<open>decimal_float\<close>
  reads a plain decimal literal (an optional sign, digits, an optional point, digits, with at
  least one digit) and fails on every other string. On the literals of the examples,
  \<open>0.0\<close>, \<open>0.1\<close>, \<open>0.2\<close>, \<open>0.5\<close> and \<open>NaNtext\<close>, it compares with \<open>0.0\<close> and fails as
  \<open>float\<close> does.
\<close>

definition is_digit :: "char \<Rightarrow> bool" where
  "is_digit c = (c \<in> set ''0123456789'')"

definition digits_val :: "string \<Rightarrow> nat" where
  "digits_val s = foldl (\<lambda>a c. 10 * a + (of_char c - 48)) 0 s"

definition decimal_float :: "string \<Rightarrow> pyfloat option" where
  "decimal_float s =
     (let neg = (s \<noteq> [] \<and> hd s = CHR ''-'');
          body = (if s \<noteq> [] \<and> (hd s = CHR ''-'' \<or> hd s = CHR ''+'') then tl s else s);
          ip = takeWhile is_digit body;
          rest = dropWhile is_digit body;
          fp = (if rest = [] then Some []
                else if hd rest = CHR ''.'' then Some (tl rest) else None)
      in case fp of
           None \<Rightarrow> None
         | Some f \<Rightarrow>
             if \<not> list_all is_digit f \<or> (ip = [] \<and> f = []) then None
             else
               let m = (of_nat (digits_val (ip @ f)) :: rat) / 10 ^ length f
               in Some (if m = 0 \<and> neg then NegZero else Finite (if neg then - m else m)))"

definition ex_header :: row where
  "ex_header = [''time_diff'', ''x'', ''y'', ''z'']"

definition ex_input :: path where
  "ex_input = [''Data'', ''p.csv'']"

definition ex_outdir :: path where
  "ex_outdir = [''Data'', ''split'']"

definition ex_world :: "table \<Rightarrow> world" where
  "ex_world t = \<lparr>journal = [(ex_input, t)], dirs = {[''Data'']}, stdout = []\<rparr>"

definition ex_pitch :: "string \<Rightarrow> path" where
  "ex_pitch n = ex_outdir @ [''p_pitch_'' @ n @ ''.csv'']"

section \<open>Notions used by the statements\<close>

text \<open>
  A boundary row is a row on which the loop takes the branch \<open>t == 0.0\<close>: it has a first field,
  and the field, stripped, parses to a float equal to \<open>0.0\<close>. The rows that the loop does not
  skip are the rows with at least one field.
\<close>

definition is_boundary :: "(string \<Rightarrow> pyfloat option) \<Rightarrow> row \<Rightarrow> bool" where
  "is_boundary pf row = (row \<noteq> [] \<and> is_zero (pf (strip (row ! 0))))"

definition data_rows :: "row list \<Rightarrow> row list" where
  "data_rows rows = filter (\<lambda>r. r \<noteq> []) rows"

definition pitch_path :: "path \<Rightarrow> string \<Rightarrow> nat \<Rightarrow> path" where
  "pitch_path outdir base idx = outdir @ [base @ ''_pitch_'' @ fmt_03d idx @ ''.csv'']"

text \<open>
  The write after the loop takes the index 1 in place of the counter: the buffer is not empty
  and the test \<open>pitch_idx>0\<close> fails.
\<close>

definition fallback_taken :: "scan \<Rightarrow> bool" where
  "fallback_taken s = (current_rows s \<noteq> [] \<and> \<not> pitch_idx s > 0)"

text \<open>A table whose first data row, the row after the header, is a boundary row.\<close>

definition first_data_boundary :: "(string \<Rightarrow> pyfloat option) \<Rightarrow> table \<Rightarrow> bool" where
  "first_data_boundary pf t = (2 \<le> length t \<and> is_boundary pf (t ! 1))"

text \<open>
  The groups of a run are numbered from 1 in the order in which they are closed, that is, in
  the order of the calls of \<open>write_pitch\<close>; the journal holds the newest first.
\<close>

definition group_write :: "(path \<times> table) list \<Rightarrow> nat \<Rightarrow> path \<times> table" where
  "group_write ws i = rev ws ! (i - 1)"

text \<open>The buffer starts with a boundary row.\<close>

definition boundary_headed :: "(string \<Rightarrow> pyfloat option) \<Rightarrow> scan \<Rightarrow> bool" where
  "boundary_headed pf s = (current_rows s \<noteq> [] \<and> is_boundary pf (hd (current_rows s)))"

text \<open>A journal entry made of the header and a buffer that is not empty, under a pitch name.\<close>

definition pitch_entry :: "path \<Rightarrow> string \<Rightarrow> row \<Rightarrow> path \<times> table \<Rightarrow> bool" where
  "pitch_entry od b h e = (\<exists>i rows. rows \<noteq> [] \<and> e = (pitch_path od b i, h # rows))"

text \<open>The examples: the world that holds the table \<open>t\<close> as the input, and the run on it.\<close>

definition ex_run :: "table \<Rightarrow> world" where
  "ex_run t = snd (split_file decimal_float ex_input ex_outdir (ex_world t))"

definition ex_scan :: "table \<Rightarrow> scan" where
  "ex_scan t = scan_rows decimal_float ex_outdir (stem ex_input) (hd t) (tl t) (init_scan (ex_world t))"

text \<open>The scenario of two pitches, each a boundary row and one more row.\<close>

definition ex_two :: table where
  "ex_two = [ex_header, [''0.0'', ''a''], [''0.1'', ''b''], [''0.0'', ''c''], [''0.2'', ''d'']]"

text \<open>A leading row before the first boundary row.\<close>

definition ex_leading :: table where
  "ex_leading = [ex_header, [''0.5'', ''a''], [''0.0'', ''b'']]"

text \<open>A blank line before the only data row.\<close>

definition ex_blank :: table where
  "ex_blank = [ex_header, [], [''0.0'', ''a'']]"

text \<open>A single pitch that starts with a boundary row.\<close>

definition ex_single :: table where
  "ex_single = [ex_header, [''0.0'', ''a''], [''0.1'', ''b'']]"

section \<open>The loop, step by step\<close>

lemma write_pitch_journal:
  "journal (snd (write_pitch od b i h rows w)) = (pitch_path od b i, h # rows) # journal w"
  by (simp add: write_pitch_def pitch_path_def mkdir_parents_def Let_def)

lemma print_line_journal: "journal (print_line x w) = journal w"
  by (simp add: print_line_def)

lemma loop_body_journal:
  "journal (env (loop_body pf od b h r s)) =
     (if is_boundary pf r \<and> current_rows s \<noteq> []
      then (pitch_path od b (pitch_idx s + 1), h # current_rows s) # journal (env s)
      else journal (env s))"
  by (simp add: loop_body_def is_boundary_def Let_def split_beta print_line_journal
      write_pitch_journal)

lemma loop_body_rows:
  "current_rows (loop_body pf od b h r s) =
     (if r = [] then current_rows s
      else if is_boundary pf r then [r] else current_rows s @ [r])"
  by (simp add: loop_body_def is_boundary_def Let_def split_beta)

lemma loop_body_idx:
  "pitch_idx (loop_body pf od b h r s) =
     (if r = [] then pitch_idx s
      else if is_boundary pf r = (current_rows s \<noteq> []) then pitch_idx s + 1
      else pitch_idx s)"
  by (simp add: loop_body_def is_boundary_def Let_def split_beta)

lemma scan_rows_Nil: "scan_rows pf od b h [] s = s"
  by (simp add: scan_rows_def)

lemma scan_rows_Cons:
  "scan_rows pf od b h (r # rows) s = scan_rows pf od b h rows (loop_body pf od b h r s)"
  by (simp add: scan_rows_def)

lemma split_file_header:
  assumes "file_content w ip = Some (h # rest)"
  shows "fst (split_file pf ip od w) = None"
    and "journal (snd (split_file pf ip od w)) =
          (let s = scan_rows pf od (stem ip) h rest (init_scan w)
           in if current_rows s \<noteq> []
              then (pitch_path od (stem ip) (final_idx s), h # current_rows s) # journal (env s)
              else journal (env s))"
  using assms
  by (simp_all add: split_file_def init_scan_def Let_def split_beta print_line_journal
      write_pitch_journal)

lemma written_rows_Cons: "written_rows (e # ws) = written_rows ws @ tl (snd e)"
  by (simp add: written_rows_def)

lemma written_rows_append: "written_rows (xs @ ys) = written_rows ys @ written_rows xs"
  by (simp add: written_rows_def)

lemma new_writes_append:
  "journal w' = new @ journal w \<Longrightarrow> new_writes w w' = new"
  by (simp add: new_writes_def)

lemma data_rows_Cons: "data_rows (r # rows) = (if r = [] then data_rows rows else r # data_rows rows)"
  by (simp add: data_rows_def)

lemma scan_rows_extends:
  "\<exists>new. journal (env (scan_rows pf od b h rows s)) = new @ journal (env s) \<and>
         (\<forall>e\<in>set new. pitch_entry od b h e)"
proof (induction rows arbitrary: s)
  case Nil
  show ?case by (simp add: scan_rows_Nil)
next
  case (Cons r rows)
  obtain new where new:
    "journal (env (scan_rows pf od b h rows (loop_body pf od b h r s))) =
       new @ journal (env (loop_body pf od b h r s))"
    "\<forall>e\<in>set new. pitch_entry od b h e"
    using Cons.IH by blast
  show ?case
  proof (cases "is_boundary pf r \<and> current_rows s \<noteq> []")
    case True
    let ?e = "(pitch_path od b (pitch_idx s + 1), h # current_rows s)"
    have "pitch_entry od b h ?e" using True by (auto simp: pitch_entry_def)
    moreover have "journal (env (scan_rows pf od b h (r # rows) s)) = (new @ [?e]) @ journal (env s)"
      using new(1) True by (simp add: scan_rows_Cons loop_body_journal)
    ultimately show ?thesis using new(2) by (intro exI[of _ "new @ [?e]"]) auto
  next
    case False
    then have "journal (env (scan_rows pf od b h (r # rows) s)) = new @ journal (env s)"
      using new(1) by (simp add: scan_rows_Cons loop_body_journal)
    then show ?thesis using new(2) by blast
  qed
qed

lemma not_boundary_Nil: "\<not> is_boundary pf []"
  by (simp add: is_boundary_def)

lemma scan_rows_conserve:
  "written_rows (journal (env (scan_rows pf od b h rows s))) @ current_rows (scan_rows pf od b h rows s)
     = written_rows (journal (env s)) @ current_rows s @ data_rows rows"
proof (induction rows arbitrary: s)
  case Nil
  show ?case by (simp add: scan_rows_Nil data_rows_def)
next
  case (Cons r rows)
  show ?case
    unfolding scan_rows_Cons Cons.IH
    by (simp add: loop_body_journal loop_body_rows data_rows_Cons written_rows_Cons not_boundary_Nil)
qed

lemma loop_body_boundary_headed:
  "boundary_headed pf s \<Longrightarrow> boundary_headed pf (loop_body pf od b h r s)"
  by (simp add: boundary_headed_def loop_body_rows)

lemma flushed_entry_boundary:
  "boundary_headed pf s \<Longrightarrow> first_data_boundary pf (h # current_rows s)"
  by (cases "current_rows s") (simp_all add: boundary_headed_def first_data_boundary_def)

lemma scan_rows_headed:
  "boundary_headed pf s \<Longrightarrow>
   \<exists>new. journal (env (scan_rows pf od b h rows s)) = new @ journal (env s) \<and>
         (\<forall>e\<in>set new. first_data_boundary pf (snd e)) \<and>
         boundary_headed pf (scan_rows pf od b h rows s)"
proof (induction rows arbitrary: s)
  case Nil
  then show ?case by (simp add: scan_rows_Nil)
next
  case (Cons r rows)
  let ?s1 = "loop_body pf od b h r s"
  have h1: "boundary_headed pf ?s1"
    using Cons.prems by (rule loop_body_boundary_headed)
  obtain new where new:
    "journal (env (scan_rows pf od b h rows ?s1)) = new @ journal (env ?s1)"
    "\<forall>e\<in>set new. first_data_boundary pf (snd e)"
    "boundary_headed pf (scan_rows pf od b h rows ?s1)"
    using Cons.IH [OF h1] by blast
  show ?case
  proof (cases "is_boundary pf r \<and> current_rows s \<noteq> []")
    case True
    let ?e = "(pitch_path od b (pitch_idx s + 1), h # current_rows s)"
    have "first_data_boundary pf (snd ?e)"
      using Cons.prems by (simp add: flushed_entry_boundary)
    moreover have "journal (env (scan_rows pf od b h (r # rows) s)) = (new @ [?e]) @ journal (env s)"
      using new(1) True by (simp add: scan_rows_Cons loop_body_journal)
    ultimately show ?thesis
      using new(2,3) by (intro exI[of _ "new @ [?e]"]) (auto simp: scan_rows_Cons)
  next
    case False
    then have "journal (env (scan_rows pf od b h (r # rows) s)) = new @ journal (env s)"
      using new(1) by (simp add: scan_rows_Cons loop_body_journal)
    then show ?thesis using new(2,3) by (auto simp: scan_rows_Cons)
  qed
qed

lemma scan_rows_later_groups:
  "\<exists>new. journal (env (scan_rows pf od b h rows s)) = new @ journal (env s) \<and>
         (\<forall>e\<in>set (butlast new). first_data_boundary pf (snd e)) \<and>
         (new \<noteq> [] \<longrightarrow> boundary_headed pf (scan_rows pf od b h rows s))"
proof (induction rows arbitrary: s)
  case Nil
  show ?case by (simp add: scan_rows_Nil)
next
  case (Cons r rows)
  let ?s1 = "loop_body pf od b h r s"
  show ?case
  proof (cases "is_boundary pf r \<and> current_rows s \<noteq> []")
    case True
    let ?e = "(pitch_path od b (pitch_idx s + 1), h # current_rows s)"
    have "boundary_headed pf ?s1"
      using True by (auto simp: boundary_headed_def loop_body_rows not_boundary_Nil)
    from scan_rows_headed [OF this, of od b h rows]
    obtain new where new:
      "journal (env (scan_rows pf od b h rows ?s1)) = new @ journal (env ?s1)"
      "\<forall>e\<in>set new. first_data_boundary pf (snd e)"
      "boundary_headed pf (scan_rows pf od b h rows ?s1)"
      by blast
    have "journal (env (scan_rows pf od b h (r # rows) s)) = (new @ [?e]) @ journal (env s)"
      using new(1) True by (simp add: scan_rows_Cons loop_body_journal)
    then show ?thesis
      using new(2,3) by (intro exI[of _ "new @ [?e]"]) (simp add: scan_rows_Cons)
  next
    case False
    obtain new where new:
      "journal (env (scan_rows pf od b h rows ?s1)) = new @ journal (env ?s1)"
      "\<forall>e\<in>set (butlast new). first_data_boundary pf (snd e)"
      "new \<noteq> [] \<longrightarrow> boundary_headed pf (scan_rows pf od b h rows ?s1)"
      using Cons.IH [of ?s1] by blast
    from False have "journal (env (scan_rows pf od b h (r # rows) s)) = new @ journal (env s)"
      using new(1) by (simp add: scan_rows_Cons loop_body_journal)
    then show ?thesis using new(2,3) by (auto simp: scan_rows_Cons)
  qed
qed

lemma filter_boundary_data_rows:
  "filter (is_boundary pf) (data_rows rows) = filter (is_boundary pf) rows"
  by (induction rows) (simp_all add: data_rows_def not_boundary_Nil)

lemma scan_rows_count:
  "current_rows s \<noteq> [] \<Longrightarrow>
   pitch_idx (scan_rows pf od b h rows s) = pitch_idx s + length (filter (is_boundary pf) rows) \<and>
   current_rows (scan_rows pf od b h rows s) \<noteq> []"
proof (induction rows arbitrary: s)
  case Nil
  then show ?case by (simp add: scan_rows_Nil)
next
  case (Cons r rows)
  let ?s1 = "loop_body pf od b h r s"
  have "current_rows ?s1 \<noteq> []"
    using Cons.prems by (simp add: loop_body_rows)
  from Cons.IH [OF this] show ?case
    using Cons.prems by (simp add: scan_rows_Cons loop_body_idx not_boundary_Nil)
qed

lemma scan_rows_from_empty:
  "current_rows s = [] \<Longrightarrow>
   (case data_rows rows of
      [] \<Rightarrow> scan_rows pf od b h rows s = s
    | r # rs \<Rightarrow>
        current_rows (scan_rows pf od b h rows s) \<noteq> [] \<and>
        pitch_idx (scan_rows pf od b h rows s) =
          pitch_idx s + (if is_boundary pf r then 0 else 1) + length (filter (is_boundary pf) rs))"
proof (induction rows arbitrary: s)
  case Nil
  show ?case by (simp add: scan_rows_Nil data_rows_def)
next
  case (Cons r rows)
  show ?case
  proof (cases "r = []")
    case True
    then have "loop_body pf od b h r s = s" by (simp add: loop_body_def)
    with Cons.IH [OF Cons.prems] True show ?thesis
      by (simp add: scan_rows_Cons data_rows_Cons split: list.splits)
  next
    case False
    let ?s1 = "loop_body pf od b h r s"
    have "current_rows ?s1 \<noteq> []" using False by (simp add: loop_body_rows)
    from scan_rows_count [OF this, of pf od b h rows] show ?thesis
      using False Cons.prems
      by (simp add: scan_rows_Cons data_rows_Cons loop_body_idx filter_boundary_data_rows
          not_boundary_Nil)
  qed
qed

section \<open>A whole run\<close>

lemma init_scan_simps:
  "pitch_idx (init_scan w) = 0" "current_rows (init_scan w) = []" "env (init_scan w) = w"
  by (simp_all add: init_scan_def)

text \<open>What a run adds to the journal: the writes of the loop, then the write after it.\<close>

lemma split_file_journal:
  assumes "file_content w ip = Some (h # rest)"
  shows "\<exists>new. journal (env (scan_rows pf od (stem ip) h rest (init_scan w))) = new @ journal w \<and>
           journal (snd (split_file pf ip od w)) =
             (let s = scan_rows pf od (stem ip) h rest (init_scan w)
              in if current_rows s \<noteq> []
                 then (pitch_path od (stem ip) (final_idx s), h # current_rows s) # new
                 else new) @ journal w"
proof -
  obtain new where "journal (env (scan_rows pf od (stem ip) h rest (init_scan w))) = new @ journal w"
    using scan_rows_extends [of pf od "stem ip" h rest "init_scan w"]
    by (auto simp: init_scan_simps)
  then show ?thesis
    using split_file_header(2) [OF assms, of pf od] by (auto simp: Let_def)
qed

lemma split_file_extends:
  assumes "file_content w ip = Some (h # rest)"
  shows "journal (snd (split_file pf ip od w)) =
           new_writes w (snd (split_file pf ip od w)) @ journal w"
proof -
  obtain ws where "journal (snd (split_file pf ip od w)) = ws @ journal w"
    using split_file_journal [OF assms, of pf od] by blast
  then show ?thesis by (simp add: new_writes_append)
qed

lemma split_file_entries:
  assumes "file_content w ip = Some (h # rest)"
    and "e \<in> set (new_writes w (snd (split_file pf ip od w)))"
  shows "pitch_entry od (stem ip) h e"
proof -
  let ?s = "scan_rows pf od (stem ip) h rest (init_scan w)"
  obtain new where new: "journal (env ?s) = new @ journal w"
    "\<forall>e\<in>set new. pitch_entry od (stem ip) h e"
    using scan_rows_extends [of pf od "stem ip" h rest "init_scan w"]
    by (auto simp: init_scan_simps)
  have "journal (snd (split_file pf ip od w)) =
          (if current_rows ?s \<noteq> []
           then (pitch_path od (stem ip) (final_idx ?s), h # current_rows ?s) # new
           else new) @ journal w"
    using split_file_header(2) [OF assms(1), of pf od] new(1) by (simp add: Let_def)
  then have "new_writes w (snd (split_file pf ip od w)) =
          (if current_rows ?s \<noteq> []
           then (pitch_path od (stem ip) (final_idx ?s), h # current_rows ?s) # new
           else new)"
    by (rule new_writes_append)
  with assms(2) new(2) show ?thesis
    by (auto simp: pitch_entry_def split: if_splits)
qed

lemma split_file_written_rows:
  assumes "file_content w ip = Some (h # rest)"
  shows "written_rows (new_writes w (snd (split_file pf ip od w))) = data_rows rest"
proof -
  let ?s = "scan_rows pf od (stem ip) h rest (init_scan w)"
  let ?w' = "snd (split_file pf ip od w)"
  have "written_rows (journal (env ?s)) @ current_rows ?s = written_rows (journal w) @ data_rows rest"
    using scan_rows_conserve [of pf od "stem ip" h rest "init_scan w"]
    by (simp add: init_scan_simps)
  moreover have "written_rows (journal ?w') = written_rows (journal (env ?s)) @ current_rows ?s"
    using split_file_header(2) [OF assms, of pf od]
    by (simp add: Let_def written_rows_Cons)
  moreover have "written_rows (journal ?w') = written_rows (journal w) @ written_rows (new_writes w ?w')"
    using split_file_extends [OF assms, of pf od] written_rows_append
    by metis
  ultimately show ?thesis by simp
qed

lemma split_file_boundaries:
  assumes "file_content w ip = Some (h # rest)"
  shows "\<forall>e\<in>set (butlast (new_writes w (snd (split_file pf ip od w)))).
           first_data_boundary pf (snd e)"
proof -
  let ?s = "scan_rows pf od (stem ip) h rest (init_scan w)"
  obtain new where new: "journal (env ?s) = new @ journal w"
    "\<forall>e\<in>set (butlast new). first_data_boundary pf (snd e)"
    "new \<noteq> [] \<longrightarrow> boundary_headed pf ?s"
    using scan_rows_later_groups [of pf od "stem ip" h rest "init_scan w"]
    by (auto simp: init_scan_simps)
  have "journal (snd (split_file pf ip od w)) =
          (if current_rows ?s \<noteq> []
           then (pitch_path od (stem ip) (final_idx ?s), h # current_rows ?s) # new
           else new) @ journal w"
    using split_file_header(2) [OF assms(1), of pf od] new(1) by (simp add: Let_def)
  then have eq: "new_writes w (snd (split_file pf ip od w)) =
          (if current_rows ?s \<noteq> []
           then (pitch_path od (stem ip) (final_idx ?s), h # current_rows ?s) # new
           else new)"
    by (rule new_writes_append)
  show ?thesis
  proof (cases "current_rows ?s \<noteq> [] \<and> new \<noteq> []")
    case True
    then have "first_data_boundary pf (h # current_rows ?s)"
      using new(3) by (simp add: flushed_entry_boundary)
    with True new(2) show ?thesis unfolding eq by auto
  next
    case False
    with new(2) show ?thesis unfolding eq by auto
  qed
qed

lemma split_file_boundaries_first:
  assumes "file_content w ip = Some (h # r # rows)" and "is_boundary pf r"
  shows "\<forall>e\<in>set (new_writes w (snd (split_file pf ip od w))). first_data_boundary pf (snd e)"
proof -
  let ?s1 = "loop_body pf od (stem ip) h r (init_scan w)"
  let ?s = "scan_rows pf od (stem ip) h (r # rows) (init_scan w)"
  have j1: "journal (env ?s1) = journal w"
    by (simp add: loop_body_journal init_scan_simps)
  have "boundary_headed pf ?s1"
    using assms(2) by (auto simp: boundary_headed_def loop_body_rows not_boundary_Nil)
  from scan_rows_headed [OF this, of od "stem ip" h rows]
  obtain new where new: "journal (env ?s) = new @ journal w"
    "\<forall>e\<in>set new. first_data_boundary pf (snd e)"
    "boundary_headed pf ?s"
    by (auto simp: scan_rows_Cons j1)
  have "journal (snd (split_file pf ip od w)) =
          (if current_rows ?s \<noteq> []
           then (pitch_path od (stem ip) (final_idx ?s), h # current_rows ?s) # new
           else new) @ journal w"
    using split_file_header(2) [OF assms(1), of pf od] new(1) by (simp add: Let_def)
  then have eq: "new_writes w (snd (split_file pf ip od w)) =
          (if current_rows ?s \<noteq> []
           then (pitch_path od (stem ip) (final_idx ?s), h # current_rows ?s) # new
           else new)"
    by (rule new_writes_append)
  have "first_data_boundary pf (h # current_rows ?s)"
    using new(3) by (simp add: flushed_entry_boundary)
  with new(2) show ?thesis unfolding eq by auto
qed

text \<open>The content of a path after the run, for a path that the run has written.\<close>

lemma map_of_first:
  "m < length xs \<Longrightarrow> \<exists>k\<le>m. map_of (xs @ ys) (fst (xs ! m)) = Some (snd (xs ! k))"
proof (induction xs arbitrary: m)
  case Nil
  then show ?case by simp
next
  case (Cons x xs)
  show ?case
  proof (cases "fst x = fst ((x # xs) ! m)")
    case True
    then have "map_of ((x # xs) @ ys) (fst ((x # xs) ! m)) = Some (snd ((x # xs) ! 0))"
      by (cases x) simp
    then show ?thesis by blast
  next
    case False
    then obtain m' where m': "m = Suc m'" by (cases m) auto
    with Cons.prems have "m' < length xs" by simp
    from Cons.IH [OF this] obtain k where "k \<le> m'"
      "map_of (xs @ ys) (fst (xs ! m')) = Some (snd (xs ! k))" by blast
    with False m' have "Suc k \<le> m \<and>
        map_of ((x # xs) @ ys) (fst ((x # xs) ! m)) = Some (snd ((x # xs) ! Suc k))"
      by (cases x) auto
    then show ?thesis by blast
  qed
qed

lemma split_file_content:
  assumes "file_content w ip = Some (h # rest)"
    and "m < length (new_writes w (snd (split_file pf ip od w)))"
  shows "\<exists>k\<le>m. file_content (snd (split_file pf ip od w))
                  (fst (new_writes w (snd (split_file pf ip od w)) ! m)) =
               Some (snd (new_writes w (snd (split_file pf ip od w)) ! k))"
  using map_of_first [OF assms(2), of "journal w"] split_file_extends [OF assms(1), of pf od]
  by (simp add: file_content_def)

lemma split_file_final_entry:
  assumes "file_content w ip = Some (h # rest)"
    and "e \<in> set (new_writes w (snd (split_file pf ip od w)))"
  shows "\<exists>e'\<in>set (new_writes w (snd (split_file pf ip od w))).
           file_content (snd (split_file pf ip od w)) (fst e) = Some (snd e')"
proof -
  define ws where "ws = new_writes w (snd (split_file pf ip od w))"
  obtain m where m: "m < length ws" "ws ! m = e"
    using assms(2) unfolding ws_def by (auto simp: in_set_conv_nth)
  obtain k where k: "k \<le> m"
    "file_content (snd (split_file pf ip od w)) (fst (ws ! m)) = Some (snd (ws ! k))"
    using split_file_content [OF assms(1), of m pf od] m(1) unfolding ws_def by blast
  have "ws ! k \<in> set ws" using k(1) m(1) by simp
  with k(2) m(2) show ?thesis unfolding ws_def by blast
qed

section \<open>The runs of the examples\<close>

lemma ex_two_input: "file_content (ex_world ex_two) ex_input = Some (ex_header # tl ex_two)"
  by code_simp

lemma ex_two_writes:
  "new_writes (ex_world ex_two) (snd (split_file decimal_float ex_input ex_outdir (ex_world ex_two))) =
     [(ex_pitch ''001'', [ex_header, [''0.0'', ''c''], [''0.2'', ''d'']]),
      (ex_pitch ''001'', [ex_header, [''0.0'', ''a''], [''0.1'', ''b'']])]"
  by code_simp

lemma ex_two_member:
  "(ex_pitch ''001'', [ex_header, [''0.0'', ''a''], [''0.1'', ''b'']]) \<in>
     set (new_writes (ex_world ex_two)
       (snd (split_file decimal_float ex_input ex_outdir (ex_world ex_two))))"
  by (simp add: ex_two_writes)

section \<open>The claims\<close>

text \<open>
  C1, as amended. For every input table with a header, the buffers handed to \<open>write_pitch\<close>
  by the successive calls of a run, concatenated in the order of the calls, are exactly the
  rows of the input after the header that have at least one field, in their original order,
  none twice and none missing; and the run returns without an error.
\<close>

theorem written_rows_partition:
  assumes "file_content w ip = Some (header # rest)"
  shows "fst (split_file pf ip od w) = None \<and>
         written_rows (new_writes w (snd (split_file pf ip od w))) = data_rows rest"
  using assms split_file_header(1) split_file_written_rows by blast

theorem written_rows_partition_witness:
  "file_content (ex_world ex_two) ex_input = Some (ex_header # tl ex_two) \<and>
   fst (split_file decimal_float ex_input ex_outdir (ex_world ex_two)) = None \<and>
   written_rows (new_writes (ex_world ex_two)
       (snd (split_file decimal_float ex_input ex_outdir (ex_world ex_two)))) =
     data_rows (tl ex_two)"
  using written_rows_partition [OF ex_two_input, of decimal_float ex_outdir] ex_two_input
  by simp

text \<open>
  C1, as stated, fails on an input with a blank line: the only output file holds one data row,
  the input has two rows after the header.
\<close>

theorem partition_counterexample:
  "new_writes (ex_world ex_blank) (ex_run ex_blank) =
     [(ex_pitch ''001'', [ex_header, [''0.0'', ''a'']])] \<and>
   file_content (ex_run ex_blank) (ex_pitch ''001'') = Some [ex_header, [''0.0'', ''a'']] \<and>
   tl ex_blank = [[], [''0.0'', ''a'']] \<and>
   written_rows (new_writes (ex_world ex_blank) (ex_run ex_blank)) \<noteq> tl ex_blank"
  by code_simp

text \<open>
  C2, on the code. The scenario of the claim, a header and the rows \<open>0.0\<close>, \<open>0.1\<close>, \<open>0.0\<close>,
  \<open>0.2\<close>: the run calls \<open>write_pitch\<close> twice with the index 1, so the second group replaces
  the first in \<open>pitch_001\<close> and no \<open>pitch_002\<close> exists.
\<close>

theorem two_pitches_share_index:
  "new_writes (ex_world ex_two) (ex_run ex_two) =
     [(ex_pitch ''001'', [ex_header, [''0.0'', ''c''], [''0.2'', ''d'']]),
      (ex_pitch ''001'', [ex_header, [''0.0'', ''a''], [''0.1'', ''b'']])] \<and>
   file_content (ex_run ex_two) (ex_pitch ''001'') =
     Some [ex_header, [''0.0'', ''c''], [''0.2'', ''d'']] \<and>
   file_content (ex_run ex_two) (ex_pitch ''002'') = None \<and>
   stdout (ex_run ex_two) =
     [''Wrote Data/split/p_pitch_001.csv (2 rows)'', ''Wrote Data/split/p_pitch_001.csv (2 rows)'']"
  by code_simp

text \<open>
  C3, on the code. A header, the row \<open>0.5\<close> and the row \<open>0.0\<close>: the leading group is written
  under the index 2, the group of the boundary row then replaces it, and no \<open>pitch_001\<close>
  exists.
\<close>

theorem leading_group_index_two:
  "new_writes (ex_world ex_leading) (ex_run ex_leading) =
     [(ex_pitch ''002'', [ex_header, [''0.0'', ''b'']]),
      (ex_pitch ''002'', [ex_header, [''0.5'', ''a'']])] \<and>
   file_content (ex_run ex_leading) (ex_pitch ''001'') = None \<and>
   file_content (ex_run ex_leading) (ex_pitch ''002'') = Some [ex_header, [''0.0'', ''b'']]"
  by code_simp

text \<open>
  C4. For every input and every group \<open>i\<close> that a run writes, the groups numbered in the order
  in which they are closed: when \<open>i > 1\<close>, or when \<open>i = 1\<close> and the first row after the
  header is a boundary row, the table written for group \<open>i\<close> has a boundary row as its first
  data row, and so has the file that received it when the run ends.
\<close>

theorem boundary_correctness:
  assumes "file_content w ip = Some (header # rest)"
    and "1 \<le> i" and "i \<le> length (new_writes w (snd (split_file pf ip od w)))"
    and "1 < i \<or> (rest \<noteq> [] \<and> is_boundary pf (hd rest))"
  shows "first_data_boundary pf (snd (group_write (new_writes w (snd (split_file pf ip od w))) i)) \<and>
         (\<exists>t. file_content (snd (split_file pf ip od w))
                 (fst (group_write (new_writes w (snd (split_file pf ip od w))) i)) = Some t \<and>
              first_data_boundary pf t)"
proof -
  define w' where "w' = snd (split_file pf ip od w)"
  define ws where "ws = new_writes w w'"
  define m where "m = length ws - i"
  have m: "m < length ws" using assms(2,3) by (simp add: m_def ws_def w'_def)
  have gw: "group_write ws i = ws ! m"
    using assms(2,3) by (simp add: group_write_def rev_nth m_def ws_def w'_def)
  obtain k where k: "k \<le> m" "file_content w' (fst (ws ! m)) = Some (snd (ws ! k))"
    using split_file_content [OF assms(1), of m pf od] m
    unfolding ws_def w'_def by blast
  have good: "first_data_boundary pf (snd (ws ! j))" if "j \<le> m" for j
  proof (cases "1 < i")
    case True
    then have j: "j < length (butlast ws)"
      using that assms(3) by (simp add: m_def ws_def w'_def)
    have "butlast ws ! j \<in> set (butlast ws)"
      using j by (rule nth_mem)
    moreover have "butlast ws ! j = ws ! j"
      using j by (rule nth_butlast)
    moreover have "\<forall>e\<in>set (butlast ws). first_data_boundary pf (snd e)"
      using split_file_boundaries [OF assms(1), of pf od] by (simp add: ws_def w'_def)
    ultimately show ?thesis by metis
  next
    case False
    with assms(4) obtain r rows where "rest = r # rows" "is_boundary pf r"
      by (cases rest) auto
    with assms(1) have "\<forall>e\<in>set ws. first_data_boundary pf (snd e)"
      using split_file_boundaries_first [of w ip header r rows pf od]
      by (simp add: ws_def w'_def)
    moreover have "ws ! j \<in> set ws"
      using that m by simp
    ultimately show ?thesis by blast
  qed
  have "first_data_boundary pf (snd (group_write ws i))"
    using good [of m] gw by simp
  moreover have "\<exists>t. file_content w' (fst (group_write ws i)) = Some t \<and> first_data_boundary pf t"
    using good [OF k(1)] k(2) gw by simp
  ultimately show ?thesis
    unfolding ws_def w'_def by blast
qed

theorem boundary_correctness_witness:
  "file_content (ex_world ex_two) ex_input = Some (ex_header # tl ex_two) \<and>
   (1::nat) \<le> 2 \<and>
   2 \<le> length (new_writes (ex_world ex_two)
          (snd (split_file decimal_float ex_input ex_outdir (ex_world ex_two)))) \<and>
   ((1::nat) < 2 \<or> (tl ex_two \<noteq> [] \<and> is_boundary decimal_float (hd (tl ex_two)))) \<and>
   first_data_boundary decimal_float
     (snd (group_write (new_writes (ex_world ex_two)
        (snd (split_file decimal_float ex_input ex_outdir (ex_world ex_two)))) 2)) \<and>
   (\<exists>t. file_content (snd (split_file decimal_float ex_input ex_outdir (ex_world ex_two)))
           (fst (group_write (new_writes (ex_world ex_two)
              (snd (split_file decimal_float ex_input ex_outdir (ex_world ex_two)))) 2)) = Some t \<and>
        first_data_boundary decimal_float t)"
proof -
  have len: "2 \<le> length (new_writes (ex_world ex_two)
          (snd (split_file decimal_float ex_input ex_outdir (ex_world ex_two))))"
    by (simp add: ex_two_writes)
  have one: "(1::nat) \<le> 2" by simp
  have two: "(1::nat) < 2 \<or> (tl ex_two \<noteq> [] \<and> is_boundary decimal_float (hd (tl ex_two)))"
    by simp
  show ?thesis
    using boundary_correctness [OF ex_two_input one len two] ex_two_input one len by simp
qed

text \<open>
  C5, as amended. The write after the loop takes the fallback index 1, with the counter still
  0, exactly when the first row with a field is a boundary row and no later row is one; so
  the fallback is reachable, and it is never taken when the first row with a field is not a
  boundary row.
\<close>

theorem fallback_reached_iff:
  "fallback_taken (scan_rows pf od b header rest (init_scan w)) =
     (\<exists>r rs. data_rows rest = r # rs \<and> is_boundary pf r \<and> (\<forall>x\<in>set rs. \<not> is_boundary pf x))"
proof (cases "data_rows rest")
  case Nil
  then show ?thesis
    using scan_rows_from_empty [where s = "init_scan w" and rows = rest and pf = pf
        and od = od and b = b and h = header]
    by (simp add: init_scan_simps fallback_taken_def)
next
  case (Cons r rs)
  then show ?thesis
    using scan_rows_from_empty [where s = "init_scan w" and rows = rest and pf = pf
        and od = od and b = b and h = header]
    by (auto simp: init_scan_simps fallback_taken_def filter_empty_conv)
qed

theorem fallback_reached_iff_witness:
  "fallback_taken (scan_rows decimal_float ex_outdir (stem ex_input) ex_header (tl ex_single)
      (init_scan (ex_world ex_single))) \<and>
   (\<exists>r rs. data_rows (tl ex_single) = r # rs \<and> is_boundary decimal_float r \<and>
      (\<forall>x\<in>set rs. \<not> is_boundary decimal_float x))"
proof -
  have "fallback_taken (scan_rows decimal_float ex_outdir (stem ex_input) ex_header (tl ex_single)
      (init_scan (ex_world ex_single)))"
    by code_simp
  then show ?thesis
    using fallback_reached_iff [where pf = decimal_float and od = ex_outdir
        and b = "stem ex_input" and header = ex_header and rest = "tl ex_single"
        and w = "ex_world ex_single"]
    by simp
qed

text \<open>
  C5, as stated, fails on a header followed by one pitch that starts with a boundary row: the
  loop ends with the counter 0 and a buffer of two rows, and the file gets the index 1 from
  the fallback.
\<close>

theorem fallback_counterexample:
  "pitch_idx (ex_scan ex_single) = 0 \<and>
   current_rows (ex_scan ex_single) = [[''0.0'', ''a''], [''0.1'', ''b'']] \<and>
   fallback_taken (ex_scan ex_single) \<and>
   new_writes (ex_world ex_single) (ex_run ex_single) =
     [(ex_pitch ''001'', [ex_header, [''0.0'', ''a''], [''0.1'', ''b'']])]"
  by code_simp

text \<open>
  C6. For every input with a header, every table that a run writes has the header of the
  input as its first row, and so has every written file when the run ends.
\<close>

theorem header_propagation:
  assumes "file_content w ip = Some (header # rest)"
    and "e \<in> set (new_writes w (snd (split_file pf ip od w)))"
  shows "snd e \<noteq> [] \<and> hd (snd e) = header \<and>
         (\<exists>t. file_content (snd (split_file pf ip od w)) (fst e) = Some t \<and>
              t \<noteq> [] \<and> hd t = header)"
proof -
  have "pitch_entry od (stem ip) header e"
    using assms by (rule split_file_entries)
  then have here: "snd e \<noteq> [] \<and> hd (snd e) = header"
    by (auto simp: pitch_entry_def)
  obtain e' where e': "e' \<in> set (new_writes w (snd (split_file pf ip od w)))"
    "file_content (snd (split_file pf ip od w)) (fst e) = Some (snd e')"
    using split_file_final_entry [OF assms] by blast
  have "pitch_entry od (stem ip) header e'"
    using assms(1) e'(1) by (rule split_file_entries)
  then have "snd e' \<noteq> [] \<and> hd (snd e') = header"
    by (auto simp: pitch_entry_def)
  with here e'(2) show ?thesis by simp
qed

theorem header_propagation_witness:
  "file_content (ex_world ex_two) ex_input = Some (ex_header # tl ex_two) \<and>
   (ex_pitch ''001'', [ex_header, [''0.0'', ''a''], [''0.1'', ''b'']]) \<in>
     set (new_writes (ex_world ex_two)
       (snd (split_file decimal_float ex_input ex_outdir (ex_world ex_two)))) \<and>
   hd [ex_header, [''0.0'', ''a''], [''0.1'', ''b'']] = ex_header \<and>
   (\<exists>t. file_content (snd (split_file decimal_float ex_input ex_outdir (ex_world ex_two)))
          (ex_pitch ''001'') = Some t \<and> t \<noteq> [] \<and> hd t = ex_header)"
  using header_propagation [OF ex_two_input ex_two_member] ex_two_input ex_two_member
  by simp

text \<open>
  C7. A row whose first field fails to parse is not a boundary row: the loop body writes
  nothing and prints nothing for it, and appends it to the current buffer.
\<close>

theorem unparsable_row_retained:
  assumes "row \<noteq> []" and "pf (strip (row ! 0)) = None"
  shows "\<not> is_boundary pf row \<and>
         env (loop_body pf od b header row s) = env s \<and>
         current_rows (loop_body pf od b header row s) = current_rows s @ [row]"
  using assms by (simp add: is_boundary_def is_zero_def loop_body_def Let_def)

theorem unparsable_row_retained_witness:
  "[''NaNtext'', ''x''] \<noteq> [] \<and>
   decimal_float (strip ([''NaNtext'', ''x''] ! 0)) = None \<and>
   \<not> is_boundary decimal_float [''NaNtext'', ''x''] \<and>
   env (loop_body decimal_float ex_outdir ''p'' ex_header [''NaNtext'', ''x'']
          \<lparr>pitch_idx = 0, current_rows = [[''0.0'', ''a'']], env = ex_world ex_two\<rparr>) =
     ex_world ex_two \<and>
   current_rows (loop_body decimal_float ex_outdir ''p'' ex_header [''NaNtext'', ''x'']
          \<lparr>pitch_idx = 0, current_rows = [[''0.0'', ''a'']], env = ex_world ex_two\<rparr>) =
     [[''0.0'', ''a''], [''NaNtext'', ''x'']]"
proof -
  have a: "[''NaNtext'', ''x''] \<noteq> ([] :: row)" by simp
  have b: "decimal_float (strip ([''NaNtext'', ''x''] ! 0)) = None" by code_simp
  show ?thesis
    using unparsable_row_retained [where pf = decimal_float and row = "[''NaNtext'', ''x'']"
        and od = ex_outdir and b = "''p''" and header = ex_header
        and s = "\<lparr>pitch_idx = 0, current_rows = [[''0.0'', ''a'']], env = ex_world ex_two\<rparr>"]
      a b
    by simp
qed

text \<open>
  C8. When the input path does not exist, \<open>main\<close> ends with \<open>SystemExit\<close>, hence a status
  other than 0, and a message that names the path; the world is unchanged: no file is
  written and no directory is created.
\<close>

theorem missing_input_exits:
  assumes "\<not> exists_path w ip"
  shows "main pf ip od w = (Some (SystemExit (''Input file not found: '' @ path_str ip)), w) \<and>
         exit_status (fst (main pf ip od w)) \<noteq> 0 \<and>
         new_writes w (snd (main pf ip od w)) = [] \<and>
         dirs (snd (main pf ip od w)) = dirs w"
  using assms by (simp add: main_def exit_status_def new_writes_def)

theorem missing_input_exits_witness:
  "\<not> exists_path (ex_world ex_two) [''Data'', ''q.csv''] \<and>
   main decimal_float [''Data'', ''q.csv''] ex_outdir (ex_world ex_two) =
     (Some (SystemExit ''Input file not found: Data/q.csv''), ex_world ex_two) \<and>
   exit_status (fst (main decimal_float [''Data'', ''q.csv''] ex_outdir (ex_world ex_two))) \<noteq> 0 \<and>
   new_writes (ex_world ex_two)
     (snd (main decimal_float [''Data'', ''q.csv''] ex_outdir (ex_world ex_two))) = [] \<and>
   dirs (snd (main decimal_float [''Data'', ''q.csv''] ex_outdir (ex_world ex_two))) =
     dirs (ex_world ex_two)"
proof -
  have a: "\<not> exists_path (ex_world ex_two) [''Data'', ''q.csv'']"
    by (simp add: exists_path_def file_content_def ex_world_def ex_input_def)
  have b: "''Input file not found: '' @ path_str [''Data'', ''q.csv''] =
      ''Input file not found: Data/q.csv''"
    by (simp add: path_str_def is_root_def)
  show ?thesis
    using missing_input_exits [OF a, of decimal_float ex_outdir] a unfolding b by blast
qed

text \<open>
  C9. On an input with no row at all, \<open>split_file\<close> returns without an error, the line
  \<open>Input file is empty\<close> is added to the standard output, and no file is written and no
  directory created; on an input that is a header alone it returns without an error, prints
  nothing, writes no file and creates no directory.
\<close>

theorem empty_and_header_only:
  "(file_content w ip = Some [] \<longrightarrow>
      split_file pf ip od w = (None, print_line ''Input file is empty'' w) \<and>
      fst (split_file pf ip od w) = None \<and>
      stdout (snd (split_file pf ip od w)) = stdout w @ [''Input file is empty''] \<and>
      journal (snd (split_file pf ip od w)) = journal w \<and>
      new_writes w (snd (split_file pf ip od w)) = [] \<and>
      dirs (snd (split_file pf ip od w)) = dirs w) \<and>
   (file_content w ip = Some [header] \<longrightarrow>
      split_file pf ip od w = (None, w) \<and>
      fst (split_file pf ip od w) = None \<and>
      stdout (snd (split_file pf ip od w)) = stdout w \<and>
      journal (snd (split_file pf ip od w)) = journal w \<and>
      new_writes w (snd (split_file pf ip od w)) = [] \<and>
      dirs (snd (split_file pf ip od w)) = dirs w)"
  by (simp add: split_file_def scan_rows_def init_scan_def print_line_def new_writes_def)

theorem empty_and_header_only_witness:
  "file_content (ex_world []) ex_input = Some [] \<and>
   fst (split_file decimal_float ex_input ex_outdir (ex_world [])) = None \<and>
   stdout (snd (split_file decimal_float ex_input ex_outdir (ex_world []))) =
     [''Input file is empty''] \<and>
   journal (snd (split_file decimal_float ex_input ex_outdir (ex_world []))) =
     [(ex_input, [])] \<and>
   dirs (snd (split_file decimal_float ex_input ex_outdir (ex_world []))) = {[''Data'']} \<and>
   file_content (ex_world [ex_header]) ex_input = Some [ex_header] \<and>
   split_file decimal_float ex_input ex_outdir (ex_world [ex_header]) =
     (None, ex_world [ex_header]) \<and>
   stdout (snd (split_file decimal_float ex_input ex_outdir (ex_world [ex_header]))) = []"
proof -
  have a: "file_content (ex_world []) ex_input = Some []"
    by (simp add: file_content_def ex_world_def)
  have b: "file_content (ex_world [ex_header]) ex_input = Some [ex_header]"
    by (simp add: file_content_def ex_world_def)
  have c: "stdout (ex_world t) = []" "journal (ex_world t) = [(ex_input, t)]"
    "dirs (ex_world t) = {[''Data'']}" for t
    by (simp_all add: ex_world_def)
  show ?thesis
    using empty_and_header_only [of "ex_world []" ex_input decimal_float ex_outdir ex_header]
      empty_and_header_only [of "ex_world [ex_header]" ex_input decimal_float ex_outdir ex_header]
      a b c [of "[]"] c [of "[ex_header]"]
    by (simp add: print_line_def)
qed

text \<open>
  C10. Every call of \<open>write_pitch\<close> in a run receives a buffer that is not empty: every table
  written holds the header and at least one data row, and so does every written file when
  the run ends.
\<close>

theorem no_header_only_file:
  assumes "file_content w ip = Some (header # rest)"
    and "e \<in> set (new_writes w (snd (split_file pf ip od w)))"
  shows "tl (snd e) \<noteq> [] \<and> 2 \<le> length (snd e) \<and>
         (\<exists>t. file_content (snd (split_file pf ip od w)) (fst e) = Some t \<and> 2 \<le> length t)"
proof -
  have rows: "tl (snd x) \<noteq> [] \<and> 2 \<le> length (snd x)"
    if "x \<in> set (new_writes w (snd (split_file pf ip od w)))" for x
  proof -
    have "pitch_entry od (stem ip) header x"
      using assms(1) that by (rule split_file_entries)
    then obtain i rs where "rs \<noteq> []" "x = (pitch_path od (stem ip) i, header # rs)"
      by (auto simp: pitch_entry_def)
    then show ?thesis by (cases rs) simp_all
  qed
  obtain e' where e': "e' \<in> set (new_writes w (snd (split_file pf ip od w)))"
    "file_content (snd (split_file pf ip od w)) (fst e) = Some (snd e')"
    using split_file_final_entry [OF assms] by blast
  show ?thesis using rows [OF assms(2)] rows [OF e'(1)] e'(2) by simp
qed

theorem no_header_only_file_witness:
  "file_content (ex_world ex_two) ex_input = Some (ex_header # tl ex_two) \<and>
   (ex_pitch ''001'', [ex_header, [''0.0'', ''a''], [''0.1'', ''b'']]) \<in>
     set (new_writes (ex_world ex_two)
       (snd (split_file decimal_float ex_input ex_outdir (ex_world ex_two)))) \<and>
   (\<exists>t. file_content (snd (split_file decimal_float ex_input ex_outdir (ex_world ex_two)))
          (ex_pitch ''001'') = Some t \<and> 2 \<le> length t)"
  using no_header_only_file [OF ex_two_input ex_two_member] ex_two_input ex_two_member
  by simp

end
